theory Spec2Isabelle
  imports Main "HOL-Library.Word"
begin

section \<open>JavaScript strings\<close>

text \<open>
  A JavaScript string is a sequence of 16-bit code units; \<open>.length\<close>, \<open>.substring\<close>
  and \<open>.trim\<close> all count code units. Literals of the source are ASCII and are written
  \<open>js ''...''\<close>.
\<close>

type_synonym code_unit = "16 word"
type_synonym jsstring = "code_unit list"

definition js :: "string \<Rightarrow> jsstring" where
  "js s = map (\<lambda>c. of_nat (of_char c)) s"

definition join_lines :: "jsstring list \<Rightarrow> jsstring" where
  "join_lines ls = concat (case ls of [] \<Rightarrow> [] | l # rest \<Rightarrow> l # map (\<lambda>x. 0x0A # x) rest)"

text \<open>
  The white space of \<open>String.prototype.trim\<close> and of the regular expression class
  \<open>\s\<close> (the same set: WhiteSpace and LineTerminator of ECMAScript).
\<close>

definition is_space :: "code_unit \<Rightarrow> bool" where
  "is_space c \<longleftrightarrow>
     c \<in> {0x09, 0x0A, 0x0B, 0x0C, 0x0D, 0x20, 0xA0, 0x1680, 0x2028, 0x2029, 0x202F, 0x205F,
          0x3000, 0xFEFF}
     \<or> (0x2000 \<le> c \<and> c \<le> 0x200A)"

definition trim :: "jsstring \<Rightarrow> jsstring" where
  "trim s = rev (dropWhile is_space (rev (dropWhile is_space s)))"

definition substring :: "nat \<Rightarrow> nat \<Rightarrow> jsstring \<Rightarrow> jsstring" where
  "substring a b s = (let lo = min a b; hi = max a b in take (hi - lo) (drop lo s))"

subsection \<open>The two global replacements of the handler\<close>

text \<open>
  Case-insensitive comparison of the \<open>i\<close> flag, for a pattern of ASCII characters: a
  lower-case ASCII letter is compared as its upper-case form, and a code unit of 128 or
  more never matches an ASCII pattern character.
\<close>

definition canonicalize :: "code_unit \<Rightarrow> code_unit" where
  "canonicalize c = (if 0x61 \<le> c \<and> c \<le> 0x7A then c - 0x20 else c)"

fun literal_at :: "jsstring \<Rightarrow> jsstring \<Rightarrow> bool" where
  "literal_at [] s = True"
| "literal_at (p # ps) [] = False"
| "literal_at (p # ps) (c # cs) = (canonicalize c = canonicalize p \<and> literal_at ps cs)"

text \<open>
  A matcher gives the length of the match that starts at the head of the text, if there
  is one. Both patterns are a literal followed by \<open>\s*\<close>, which is greedy and has
  nothing after it.
\<close>

definition literal_then_spaces :: "jsstring \<Rightarrow> jsstring \<Rightarrow> nat option" where
  "literal_then_spaces p s =
     (if literal_at p s then Some (length p + length (takeWhile is_space (drop (length p) s)))
      else None)"

definition json_fence :: "jsstring \<Rightarrow> nat option" where
  "json_fence = literal_then_spaces (js ''```json'')"

definition fence :: "jsstring \<Rightarrow> nat option" where
  "fence = literal_then_spaces (js ''```'')"

text \<open>
  \<open>s.replace(re, '')\<close> with the \<open>g\<close> flag: the text is scanned from the left, every match
  is dropped and the scan goes on after it; a code unit where nothing matches is kept.
\<close>

function remove_all :: "(jsstring \<Rightarrow> nat option) \<Rightarrow> jsstring \<Rightarrow> jsstring" where
  "remove_all m [] = []"
| "remove_all m (c # cs) =
     (case m (c # cs) of
        Some (Suc n) \<Rightarrow> remove_all m (drop n cs)
      | _ \<Rightarrow> c # remove_all m cs)"
  by pat_completeness auto
termination
  by (relation "measure (\<lambda>(m, s). length s)") auto

definition strip_fences :: "jsstring \<Rightarrow> jsstring" where
  "strip_fences raw = remove_all fence (remove_all json_fence raw)"

definition cleaned :: "jsstring \<Rightarrow> jsstring" where
  "cleaned rawContent = trim (strip_fences rawContent)"

section \<open>JSON values and \<open>JSON.parse\<close>\<close>

text \<open>
  A number is kept as the decimal \<open>m * 10 ^ e\<close> its text denotes (\<open>Decimal m e\<close>);
  the rounding to a double is not modelled, except for the one question the handler asks of
  a number, whether it is zero. An object is the list of its members in the order of the
  text.
\<close>

datatype jsnum = Decimal int int

datatype jsvalue =
    JNull
  | JBool bool
  | JNum jsnum
  | JStr jsstring
  | JArr "jsvalue list"
  | JObj "(jsstring \<times> jsvalue) list"

text \<open>
  A decimal becomes the double zero when it is zero or when it is at most \<open>2 ^ -1075\<close> in
  magnitude (half of the least positive double; the tie rounds to even, that is to zero).
\<close>

fun is_zero :: "jsnum \<Rightarrow> bool" where
  "is_zero (Decimal m e) =
     (m = 0 \<or> (e < 0 \<and> \<bar>m\<bar> * 2 ^ 1075 \<le> 10 ^ nat (- e)))"

subsection \<open>The grammar of ECMA-404, as \<open>JSON.parse\<close> reads it\<close>

definition is_json_ws :: "code_unit \<Rightarrow> bool" where
  "is_json_ws c \<longleftrightarrow> c \<in> {0x20, 0x09, 0x0A, 0x0D}"

definition skip_ws :: "jsstring \<Rightarrow> jsstring" where
  "skip_ws = dropWhile is_json_ws"

definition is_digit :: "code_unit \<Rightarrow> bool" where
  "is_digit c \<longleftrightarrow> 0x30 \<le> c \<and> c \<le> 0x39"

definition digits_value :: "jsstring \<Rightarrow> int" where
  "digits_value ds = foldl (\<lambda>acc d. 10 * acc + (uint d - 48)) 0 ds"

definition hex_value :: "code_unit \<Rightarrow> code_unit option" where
  "hex_value c =
     (if 0x30 \<le> c \<and> c \<le> 0x39 then Some (c - 0x30)
      else if 0x41 \<le> c \<and> c \<le> 0x46 then Some (c - 0x37)
      else if 0x61 \<le> c \<and> c \<le> 0x66 then Some (c - 0x57)
      else None)"

definition hex4 :: "code_unit \<Rightarrow> code_unit \<Rightarrow> code_unit \<Rightarrow> code_unit \<Rightarrow> code_unit option" where
  "hex4 a b c d =
     (case (hex_value a, hex_value b, hex_value c, hex_value d) of
        (Some x, Some y, Some z, Some w) \<Rightarrow> Some (((x * 16 + y) * 16 + z) * 16 + w)
      | _ \<Rightarrow> None)"

definition escape :: "code_unit \<Rightarrow> code_unit option" where
  "escape e =
     (if e = 0x22 then Some 0x22
      else if e = 0x5C then Some 0x5C
      else if e = 0x2F then Some 0x2F
      else if e = 0x62 then Some 0x08
      else if e = 0x66 then Some 0x0C
      else if e = 0x6E then Some 0x0A
      else if e = 0x72 then Some 0x0D
      else if e = 0x74 then Some 0x09
      else None)"

text \<open>The characters of a string literal, after its opening quote, up to the closing one.\<close>

fun parse_chars :: "jsstring \<Rightarrow> (jsstring \<times> jsstring) option" where
  "parse_chars [] = None"
| "parse_chars (c # cs) =
     (if c = 0x22 then Some ([], cs)
      else if c = 0x5C then
        (case cs of
           [] \<Rightarrow> None
         | e # r \<Rightarrow>
             if e = 0x75 then
               (case r of
                  h1 # h2 # h3 # h4 # r' \<Rightarrow>
                    (case hex4 h1 h2 h3 h4 of
                       None \<Rightarrow> None
                     | Some u \<Rightarrow> map_option (\<lambda>(str, rest). (u # str, rest)) (parse_chars r'))
                | _ \<Rightarrow> None)
             else
               (case escape e of
                  None \<Rightarrow> None
                | Some x \<Rightarrow> map_option (\<lambda>(str, rest). (x # str, rest)) (parse_chars r)))
      else if c < 0x20 then None
      else map_option (\<lambda>(str, rest). (c # str, rest)) (parse_chars cs))"

text \<open>
  A number: an optional minus sign, an integer part without a leading zero, an optional
  fraction and an optional exponent.
\<close>

definition parse_number :: "jsstring \<Rightarrow> (jsnum \<times> jsstring) option" where
  "parse_number s =
     (let neg = (take 1 s = [0x2D]);
          s1 = (if neg then drop 1 s else s);
          ip = takeWhile is_digit s1;
          s2 = dropWhile is_digit s1;
          has_frac = (take 1 s2 = [0x2E]);
          fp = (if has_frac then takeWhile is_digit (drop 1 s2) else []);
          s3 = (if has_frac then dropWhile is_digit (drop 1 s2) else s2);
          has_exp = (take 1 s3 = [0x65] \<or> take 1 s3 = [0x45]);
          s4 = (if has_exp then drop 1 s3 else s3);
          exp_neg = (has_exp \<and> take 1 s4 = [0x2D]);
          s5 = (if has_exp \<and> (take 1 s4 = [0x2D] \<or> take 1 s4 = [0x2B]) then drop 1 s4 else s4);
          ep = (if has_exp then takeWhile is_digit s5 else []);
          s6 = (if has_exp then dropWhile is_digit s5 else s3);
          m = digits_value (ip @ fp);
          e = digits_value ep
      in if ip = [] \<or> (1 < length ip \<and> take 1 ip = [0x30]) then None
         else if has_frac \<and> fp = [] then None
         else if has_exp \<and> ep = [] then None
         else Some (Decimal (if neg then - m else m)
                            ((if exp_neg then - e else e) - int (length fp)), s6))"

text \<open>
  Values, the elements of an array and the members of an object. After a value has been
  read the text that is left is shorter; the elements and members go on only then, which is
  what makes the recursion end.
\<close>

function parse_value :: "jsstring \<Rightarrow> (jsvalue \<times> jsstring) option"
  and parse_elements :: "jsvalue list \<Rightarrow> jsstring \<Rightarrow> (jsvalue \<times> jsstring) option"
  and parse_members :: "(jsstring \<times> jsvalue) list \<Rightarrow> jsstring \<Rightarrow> (jsvalue \<times> jsstring) option"
where
  "parse_value s =
     (case skip_ws s of
        [] \<Rightarrow> None
      | c # r \<Rightarrow>
          if c = 0x5B then
            (if take 1 (skip_ws r) = [0x5D] then Some (JArr [], drop 1 (skip_ws r))
             else parse_elements [] r)
          else if c = 0x7B then
            (if take 1 (skip_ws r) = [0x7D] then Some (JObj [], drop 1 (skip_ws r))
             else parse_members [] r)
          else if c = 0x22 then map_option (\<lambda>(str, rest). (JStr str, rest)) (parse_chars r)
          else if take 4 (c # r) = js ''true'' then Some (JBool True, drop 4 (c # r))
          else if take 5 (c # r) = js ''false'' then Some (JBool False, drop 5 (c # r))
          else if take 4 (c # r) = js ''null'' then Some (JNull, drop 4 (c # r))
          else map_option (\<lambda>(n, rest). (JNum n, rest)) (parse_number (c # r)))"
| "parse_elements acc s =
     (case parse_value s of
        None \<Rightarrow> None
      | Some (v, r) \<Rightarrow>
          if length r < length s then
            (case skip_ws r of
               [] \<Rightarrow> None
             | d # r' \<Rightarrow>
                 if d = 0x2C then parse_elements (acc @ [v]) r'
                 else if d = 0x5D then Some (JArr (acc @ [v]), r')
                 else None)
          else None)"
| "parse_members acc s =
     (case skip_ws s of
        [] \<Rightarrow> None
      | q # r0 \<Rightarrow>
          if q = 0x22 then
            (case parse_chars r0 of
               None \<Rightarrow> None
             | Some (k, r1) \<Rightarrow>
                 (case skip_ws r1 of
                    [] \<Rightarrow> None
                  | col # r2 \<Rightarrow>
                      if col = 0x3A \<and> length r2 < length s then
                        (case parse_value r2 of
                           None \<Rightarrow> None
                         | Some (v, r) \<Rightarrow>
                             if length r < length s then
                               (case skip_ws r of
                                  [] \<Rightarrow> None
                                | d # r' \<Rightarrow>
                                    if d = 0x2C then parse_members (acc @ [(k, v)]) r'
                                    else if d = 0x7D then Some (JObj (acc @ [(k, v)]), r')
                                    else None)
                             else None)
                      else None))
          else None)"
  by pat_completeness auto
termination
  apply (relation "measure (\<lambda>x. case x of
          Inl s \<Rightarrow> 2 * length s
        | Inr (Inl (acc, s)) \<Rightarrow> 2 * length s + 1
        | Inr (Inr (acc, s)) \<Rightarrow> 2 * length s + 1)")
  apply simp_all
  subgoal for s c r
    using length_dropWhile_le [of is_json_ws s] by (simp add: skip_ws_def)
  subgoal for s c r
    using length_dropWhile_le [of is_json_ws s] by (simp add: skip_ws_def)
  subgoal for s p v r d r'
    using length_dropWhile_le [of is_json_ws r] by (simp add: skip_ws_def)
  subgoal for s q r0 p k r1 r2 p' v r d r'
    using length_dropWhile_le [of is_json_ws r] by (simp add: skip_ws_def)
  done

declare parse_value.simps [simp del] parse_elements.simps [simp del]
  parse_members.simps [simp del]

text \<open>\<open>JSON.parse(text)\<close>: one value and nothing but white space after it; \<open>None\<close> is the
  SyntaxError it throws.\<close>

definition JSON_parse :: "jsstring \<Rightarrow> jsvalue option" where
  "JSON_parse text =
     (case parse_value text of
        None \<Rightarrow> None
      | Some (v, rest) \<Rightarrow> if skip_ws rest = [] then Some v else None)"

section \<open>The analyze route (routes/analyze.js)\<close>

text \<open>
  \<open>req.body\<close> after destructuring: each of the two fields is a JSON value, or absent
  (\<open>undefined\<close>, here \<open>None\<close>).
\<close>

record request =
  resume :: "jsvalue option"
  jobDescription :: "jsvalue option"

record chat_message =
  role :: string
  content :: jsstring

record chat_request =
  model :: string
  temperature :: jsnum
  max_tokens :: nat
  messages :: "chat_message list"

record js_error =
  message :: jsstring
  statusCode :: "nat option"
  stack :: jsstring

text \<open>
  What \<open>await groq.chat.completions.create(...)\<close> gives: the promise resolves to a
  completion, of which the handler reads \<open>choices[i].message.content\<close> (a string or
  \<open>null\<close>), or it rejects with an error.
\<close>

datatype upstream = Resolved "jsstring option list" | Rejected js_error

text \<open>
  The process: \<open>process.env.NODE_ENV\<close>, and the call-site lines the engine puts into the
  \<open>stack\<close> of an error it raises inside the handler.
\<close>

record runtime =
  NODE_ENV :: "jsstring option"
  stack_frames :: jsstring

definition type_error :: "runtime \<Rightarrow> jsstring \<Rightarrow> js_error" where
  "type_error rt msg =
     \<lparr>message = msg, statusCode = None, stack = js ''TypeError: '' @ msg @ stack_frames rt\<rparr>"

text \<open>\<open>!x\<close> is true of \<open>undefined\<close>, \<open>null\<close>, \<open>false\<close>, zero and the empty string.\<close>

fun falsy :: "jsvalue option \<Rightarrow> bool" where
  "falsy None = True"
| "falsy (Some JNull) = True"
| "falsy (Some (JBool b)) = (\<not> b)"
| "falsy (Some (JNum n)) = is_zero n"
| "falsy (Some (JStr s)) = (s = [])"
| "falsy (Some (JArr xs)) = False"
| "falsy (Some (JObj ms)) = False"

text \<open>
  \<open>x.trim()\<close>, where \<open>name\<close> is the source text of \<open>x\<close>: only a string has the method.
  On any other value the engine throws a TypeError (a value of a JSON body is never a
  function, so a member called \<open>trim\<close> does not help).
\<close>

fun call_trim :: "runtime \<Rightarrow> string \<Rightarrow> jsvalue option \<Rightarrow> js_error + jsstring" where
  "call_trim rt name (Some (JStr s)) = Inr (trim s)"
| "call_trim rt name None =
     Inl (type_error rt (js ''Cannot read properties of undefined (reading 'trim')''))"
| "call_trim rt name (Some JNull) =
     Inl (type_error rt (js ''Cannot read properties of null (reading 'trim')''))"
| "call_trim rt name (Some v) = Inl (type_error rt (js name @ js ''.trim is not a function''))"

type_synonym body = "(string \<times> jsvalue) list"

datatype result = Respond nat body | Next js_error

text \<open>The inner \<open>try\<close> block: \<open>null.replace\<close> throws as \<open>JSON.parse\<close> does, into the same \<open>catch\<close>.\<close>

definition parse_content :: "jsstring option \<Rightarrow> jsvalue option" where
  "parse_content rawContent =
     (case rawContent of None \<Rightarrow> None | Some raw \<Rightarrow> JSON_parse (cleaned raw))"

text \<open>
  The argument of \<open>groq.chat.completions.create\<close>: the object literal of the handler, as a
  function of the two texts it interpolates.
\<close>

definition create_params :: "jsstring \<Rightarrow> jsstring \<Rightarrow> chat_request" where
  \<open>create_params safeResume safeJD =
     \<lparr>model = ''llama-3.3-70b-versatile'',
      temperature = Decimal 2 (- 1),
      max_tokens = 1000,
      messages = [
        \<lparr>role = ''system'',
         content = join_lines [
           js ''You are an expert ATS and career coach AI.'',
           js ''Return ONLY valid JSON, no markdown, no code fences, no extra text.'',
           js ''JSON structure:'',
           js ''{'',
           js ''  "matchScore": <integer 0-100>,'',
           js ''  "performanceRating": <"Excellent"|"Good"|"Average"|"Below Average"|"Poor">,'',
           js ''  "strengths": [<3-5 strings>],'',
           js ''  "weaknesses": [<3-5 strings>],'',
           js ''  "improvementSuggestions": [<3-5 strings>],'',
           js ''  "keywordsFound": [<keywords from JD found in resume>],'',
           js ''  "keywordsMissing": [<keywords from JD missing in resume>],'',
           js ''  "summary": "<2-3 sentence assessment>"'',
           js ''}'']\<rparr>,
        \<lparr>role = ''user'',
         content = join_lines [
           js ''Analyze this resume against the job description.'',
           [],
           js ''=== RESUME ==='',
           safeResume,
           [],
           js ''=== JOB DESCRIPTION ==='',
           safeJD,
           [],
           js ''Return ONLY the JSON object.'']\<rparr>]\<rparr>\<close>

text \<open>
  The handler, with the calls it makes to the remote model in the order it makes them.
  \<open>Next e\<close> is \<open>next(error)\<close> of the outer \<open>catch\<close>.
\<close>

definition analyze ::
  "runtime \<Rightarrow> (chat_request \<Rightarrow> upstream) \<Rightarrow> request \<Rightarrow> result \<times> chat_request list" where
  "analyze rt groq req =
     (if falsy (resume req) then
        (Respond 400 [(''error'', JStr (js ''Resume must be at least 50 characters.''))], [])
      else case call_trim rt ''resume'' (resume req) of
        Inl e \<Rightarrow> (Next e, [])
      | Inr r \<Rightarrow>
      if length r < 50 then
        (Respond 400 [(''error'', JStr (js ''Resume must be at least 50 characters.''))], [])
      else if falsy (jobDescription req) then
        (Respond 400 [(''error'', JStr (js ''Job description must be at least 30 characters.''))], [])
      else case call_trim rt ''jobDescription'' (jobDescription req) of
        Inl e \<Rightarrow> (Next e, [])
      | Inr j \<Rightarrow>
      if length j < 30 then
        (Respond 400 [(''error'', JStr (js ''Job description must be at least 30 characters.''))], [])
      else
        let safeResume = substring 0 6000 r;
            safeJD = substring 0 3000 j;
            call = create_params safeResume safeJD
        in case groq call of
             Rejected e \<Rightarrow> (Next e, [call])
           | Resolved choices \<Rightarrow>
               (case choices of
                  [] \<Rightarrow>
                    (Next (type_error rt
                       (js ''Cannot read properties of undefined (reading 'message')'')), [call])
                | rawContent # others \<Rightarrow>
                    (case parse_content rawContent of
                       None \<Rightarrow>
                         (Respond 500
                            [(''error'', JStr (js ''AI returned unexpected format. Please try again.''))],
                          [call])
                     | Some analysisResult \<Rightarrow>
                         (Respond 200 [(''success'', JBool True), (''data'', analysisResult)],
                          [call]))))"

section \<open>The global error handler (server.js)\<close>

definition error_handler :: "runtime \<Rightarrow> js_error \<Rightarrow> nat \<times> body" where
  "error_handler rt err =
     (case statusCode err of Some (Suc n) \<Rightarrow> Suc n | _ \<Rightarrow> 500,
      (''error'', JStr (if message err = [] then js ''Internal Server Error'' else message err))
      # (if NODE_ENV rt = Some (js ''development'') then [(''stack'', JStr (stack err))] else []))"

text \<open>A request to \<open>POST /api/analyze\<close>: the status and body sent, and the remote calls made.\<close>

definition post_analyze ::
  "runtime \<Rightarrow> (chat_request \<Rightarrow> upstream) \<Rightarrow> request \<Rightarrow> (nat \<times> body) \<times> chat_request list" where
  "post_analyze rt groq req =
     (case analyze rt groq req of
        (Respond code b, calls) \<Rightarrow> ((code, b), calls)
      | (Next err, calls) \<Rightarrow> (error_handler rt err, calls))"

section \<open>Vocabulary of the properties\<close>

text \<open>The texts of the messages with a given role in a call to the remote model.\<close>

definition contents_of :: "string \<Rightarrow> chat_request \<Rightarrow> jsstring list" where
  "contents_of r call = map content (filter (\<lambda>m. role m = r) (messages call))"

text \<open>A pattern matches somewhere in a text.\<close>

fun occurs :: "(jsstring \<Rightarrow> nat option) \<Rightarrow> jsstring \<Rightarrow> bool" where
  "occurs m [] = False"
| "occurs m (c # cs) = (m (c # cs) \<noteq> None \<or> occurs m cs)"

text \<open>
  The two shapes of a response body: \<open>{success: true, data}\<close> without \<open>error\<close>, and a body
  with an \<open>error\<close> string and neither \<open>success\<close> nor \<open>data\<close>.
\<close>

definition success_body :: "body \<Rightarrow> bool" where
  "success_body b \<longleftrightarrow>
     map_of b ''success'' = Some (JBool True) \<and> map_of b ''data'' \<noteq> None
     \<and> map_of b ''error'' = None"

definition failure_body :: "body \<Rightarrow> bool" where
  "failure_body b \<longleftrightarrow>
     (case map_of b ''error'' of Some (JStr msg) \<Rightarrow> True | _ \<Rightarrow> False)
     \<and> map_of b ''success'' = None \<and> map_of b ''data'' = None"

text \<open>
  The contract of an analysis result as the specification words it; the route has no
  counterpart of it. A member of an object is looked up as JavaScript does, the last one of
  a name winning.
\<close>

definition member :: "jsvalue \<Rightarrow> string \<Rightarrow> jsvalue option" where
  "member v k = (case v of JObj ms \<Rightarrow> map_of (rev ms) (js k) | _ \<Rightarrow> None)"

definition required_keys :: "string list" where
  "required_keys = [''matchScore'', ''performanceRating'', ''strengths'', ''weaknesses'',
     ''improvementSuggestions'', ''keywordsFound'', ''keywordsMissing'', ''summary'']"

definition has_required_keys :: "jsvalue \<Rightarrow> bool" where
  "has_required_keys v \<longleftrightarrow> list_all (\<lambda>k. member v k \<noteq> None) required_keys"

fun integer_0_100 :: "jsvalue option \<Rightarrow> bool" where
  "integer_0_100 (Some (JNum (Decimal m e))) =
     (if 0 \<le> e then 0 \<le> m * 10 ^ nat e \<and> m * 10 ^ nat e \<le> 100
      else m mod 10 ^ nat (- e) = 0 \<and> 0 \<le> m div 10 ^ nat (- e) \<and> m div 10 ^ nat (- e) \<le> 100)"
| "integer_0_100 other = False"

definition is_rating :: "jsvalue option \<Rightarrow> bool" where
  "is_rating v \<longleftrightarrow>
     v \<in> (\<lambda>name. Some (JStr (js name))) `
         {''Excellent'', ''Good'', ''Average'', ''Below Average'', ''Poor''}"

fun is_string :: "jsvalue \<Rightarrow> bool" where
  "is_string (JStr s) = True"
| "is_string other = False"

fun strings :: "jsvalue option \<Rightarrow> bool" where
  "strings (Some (JArr xs)) = list_all is_string xs"
| "strings other = False"

definition conforms :: "jsvalue \<Rightarrow> bool" where
  "conforms v \<longleftrightarrow>
     has_required_keys v
     \<and> integer_0_100 (member v ''matchScore'')
     \<and> is_rating (member v ''performanceRating'')
     \<and> list_all (\<lambda>k. strings (member v k))
          [''strengths'', ''weaknesses'', ''improvementSuggestions'', ''keywordsFound'',
           ''keywordsMissing'']"

section \<open>Scenarios\<close>

text \<open>Concrete requests and replies of the remote model, for the scenarios of the properties.\<close>

definition scenario_runtime :: runtime where
  "scenario_runtime = \<lparr>NODE_ENV = Some (js ''production''), stack_frames = []\<rparr>"

definition scenario_resume :: jsstring where
  "scenario_resume = js ''  Backend engineer, 6 years: Node.js, Express, PostgreSQL, Docker.  ''"

definition scenario_jd :: jsstring where
  "scenario_jd = js ''Senior Node.js developer for a payments API team''"

definition scenario_request :: request where
  "scenario_request =
     \<lparr>resume = Some (JStr scenario_resume), jobDescription = Some (JStr scenario_jd)\<rparr>"

definition short_request :: request where
  "short_request =
     \<lparr>resume = Some (JStr (js ''John Smith'')), jobDescription = Some (JStr (js ''Node.js job''))\<rparr>"

definition long_request :: request where
  "long_request =
     \<lparr>resume = Some (JStr (replicate 7000 0x61)),
      jobDescription = Some (JStr (replicate 4000 0x62))\<rparr>"

definition reply_with :: "jsstring \<Rightarrow> chat_request \<Rightarrow> upstream" where
  "reply_with raw call = Resolved [Some raw]"

text \<open>The reply of scenario A of the specification, with a given score, and its value.\<close>

definition scenario_json :: "string \<Rightarrow> jsstring" where
  \<open>scenario_json score =
     js ''{"matchScore":'' @ js score
     @ js '',"performanceRating":"Good","strengths":["a","b","c"],"weaknesses":["d","e","f"],''
     @ js ''"improvementSuggestions":["g","h","i"],"keywordsFound":["x"],"keywordsMissing":["y"],''
     @ js ''"summary":"ok ok ok"}''\<close>

definition fenced :: "jsstring \<Rightarrow> jsstring" where
  "fenced x = js ''```json'' @ 0x0A # x @ 0x0A # js ''```''"

definition scenario_value :: "int \<Rightarrow> jsvalue" where
  "scenario_value score =
     JObj [(js ''matchScore'', JNum (Decimal score 0)),
           (js ''performanceRating'', JStr (js ''Good'')),
           (js ''strengths'', JArr [JStr (js ''a''), JStr (js ''b''), JStr (js ''c'')]),
           (js ''weaknesses'', JArr [JStr (js ''d''), JStr (js ''e''), JStr (js ''f'')]),
           (js ''improvementSuggestions'', JArr [JStr (js ''g''), JStr (js ''h''), JStr (js ''i'')]),
           (js ''keywordsFound'', JArr [JStr (js ''x'')]),
           (js ''keywordsMissing'', JArr [JStr (js ''y'')]),
           (js ''summary'', JStr (js ''ok ok ok''))]"

text \<open>A JSON text with a triple backtick inside a string.\<close>

definition fence_inside :: jsstring where
  \<open>fence_inside = js ''{"summary":"use ``` fences"}''\<close>

section \<open>Auxiliary facts\<close>

subsection \<open>The parser consumes its input\<close>

text \<open>
  Whatever is read, the text left over is shorter. So the length tests in the elements and
  the members never reject anything, and both satisfy the equations without them.
\<close>

lemma skip_ws_length: "length (skip_ws s) \<le> length s"
  unfolding skip_ws_def by (rule length_dropWhile_le)

lemma skip_ws_Cons: "skip_ws s = c # r \<Longrightarrow> length r < length s"
  using skip_ws_length [of s] by simp

lemma parse_chars_step:
  assumes "parse_chars (c # cs) = Some (str, r)"
  shows "r = cs
    \<or> (\<exists>str'. parse_chars cs = Some (str', r))
    \<or> (\<exists>e t str'. cs = e # t \<and> parse_chars t = Some (str', r))
    \<or> (\<exists>e h1 h2 h3 h4 t str'. cs = e # h1 # h2 # h3 # h4 # t \<and> parse_chars t = Some (str', r))"
  using assms unfolding parse_chars.simps(2)
  by (auto simp del: parse_chars.simps split: if_splits list.splits option.splits)

lemma parse_chars_shorter: "parse_chars s = Some (str, r) \<Longrightarrow> length r < length s"
proof (induction s arbitrary: str r rule: length_induct)
  case (1 s)
  from "1.prems" obtain c cs where s: "s = c # cs" by (cases s) auto
  have IH: "length t < length s \<Longrightarrow> parse_chars t = Some (str', r) \<Longrightarrow> length r < length t"
    for t str'
    using "1.IH" by blast
  from parse_chars_step [OF "1.prems" [unfolded s]]
  consider "r = cs"
    | str' where "parse_chars cs = Some (str', r)"
    | e t str' where "cs = e # t" "parse_chars t = Some (str', r)"
    | e h1 h2 h3 h4 t str' where "cs = e # h1 # h2 # h3 # h4 # t" "parse_chars t = Some (str', r)"
    by blast
  then show ?case
  proof cases
    case 1
    then show ?thesis by (simp add: s)
  next
    case 2
    from IH [OF _ 2] show ?thesis by (simp add: s)
  next
    case 3
    from IH [OF _ 3(2)] show ?thesis by (simp add: s 3(1))
  next
    case 4
    from IH [OF _ 4(2)] show ?thesis by (simp add: s 4(1))
  qed
qed


lemma guarded_result:
  assumes "(if A then None else if B then None else if C then None else Some (x, y)) = Some (n, r)"
  shows "\<not> A \<and> r = y"
  using assms by (simp split: if_splits)

lemma parse_number_shorter:
  assumes "parse_number s = Some (n, r)"
  shows "length r < length s"
proof -
  define s1 where "s1 = (if take 1 s = [0x2D] then drop 1 s else s)"
  define s2 where "s2 = dropWhile is_digit s1"
  define s3 where "s3 = (if take 1 s2 = [0x2E] then dropWhile is_digit (drop 1 s2) else s2)"
  define s4 where "s4 = (if take 1 s3 = [0x65] \<or> take 1 s3 = [0x45] then drop 1 s3 else s3)"
  define s5 where "s5 = (if (take 1 s3 = [0x65] \<or> take 1 s3 = [0x45])
      \<and> (take 1 s4 = [0x2D] \<or> take 1 s4 = [0x2B]) then drop 1 s4 else s4)"
  define s6 where "s6 = (if take 1 s3 = [0x65] \<or> take 1 s3 = [0x45]
      then dropWhile is_digit s5 else s3)"
  have "\<not> (takeWhile is_digit s1 = []
          \<or> (1 < length (takeWhile is_digit s1) \<and> take 1 (takeWhile is_digit s1) = [0x30]))
        \<and> r = s6"
    unfolding s6_def s5_def s4_def s3_def s2_def s1_def
    using assms unfolding parse_number_def Let_def
    by (rule guarded_result)
  then have digits: "takeWhile is_digit s1 \<noteq> []" and r: "r = s6"
    by blast+
  have "length (takeWhile is_digit s1) + length s2 = length s1"
    unfolding s2_def by (metis length_append takeWhile_dropWhile_id)
  with digits have "length s2 < length s1" by (cases "takeWhile is_digit s1") auto
  moreover have "length s1 \<le> length s"
    by (simp add: s1_def)
  moreover have "length s3 \<le> length s2"
    unfolding s3_def using length_dropWhile_le [of is_digit "drop 1 s2"] by auto
  moreover have s43: "length s4 \<le> length s3"
    by (simp add: s4_def)
  moreover have s54: "length s5 \<le> length s4"
    by (simp add: s5_def)
  moreover have "length s6 \<le> length s3"
    unfolding s6_def using length_dropWhile_le [of is_digit s5] s43 s54 by auto
  ultimately show ?thesis using r by simp
qed


lemma parse_shorter:
  "parse_value s = Some (v, r) \<Longrightarrow> length r < length s"
  "parse_elements acc s = Some (v, r) \<Longrightarrow> length r < length s"
  "parse_members macc s = Some (v, r) \<Longrightarrow> length r < length s"
proof (induction s and acc s and macc s arbitrary: v r and v r and v r
    rule: parse_value_parse_elements_parse_members.induct)
  case (1 s)
  from "1.prems" obtain c r0 where ws: "skip_ws s = c # r0"
    by (subst (asm) parse_value.simps) (auto split: list.splits)
  then have r0: "length r0 < length s" by (rule skip_ws_Cons)
  have tail: "length (drop n (skip_ws r0)) \<le> length r0" for n
    using skip_ws_length [of r0] by simp
  have lit: "length (drop (Suc n) (c # r0)) \<le> length r0" for n
    by simp
  from "1.prems" ws
  consider "r = drop 1 (skip_ws r0)"
    | "c = 0x5B" "take 1 (skip_ws r0) \<noteq> [0x5D]" "parse_elements [] r0 = Some (v, r)"
    | "c = 0x7B" "take 1 (skip_ws r0) \<noteq> [0x7D]" "parse_members [] r0 = Some (v, r)"
    | str where "parse_chars r0 = Some (str, r)"
    | n where "r = drop (Suc n) (c # r0)"
    | num where "parse_number (c # r0) = Some (num, r)"
    by (subst (asm) parse_value.simps) (auto split: if_splits simp: numeral_eq_Suc)
  then show ?case
  proof cases
    case 1
    with tail [of 1] r0 show ?thesis by simp
  next
    case 2
    from "1.IH"(1) [OF ws 2(1) 2(2) 2(3)] r0 show ?thesis by simp
  next
    case 3
    from "1.IH"(2) [OF ws _ 3(1) 3(2) 3(3)] r0 3(1) show ?thesis by simp
  next
    case 4
    from parse_chars_shorter [OF 4] r0 show ?thesis by simp
  next
    case 5
    with lit [of n] r0 show ?thesis by (simp del: drop_Suc_Cons)
  next
    case 6
    from parse_number_shorter [OF 6] r0 show ?thesis by simp
  qed
next
  case (2 acc s)
  from "2.prems" obtain v1 r1 where pv: "parse_value s = Some (v1, r1)"
    by (subst (asm) parse_elements.simps) (auto split: option.splits)
  from "2.prems" pv have guard: "length r1 < length s"
    by (subst (asm) parse_elements.simps) (auto split: if_splits)
  from "2.prems" pv guard obtain d r' where ws: "skip_ws r1 = d # r'"
    by (subst (asm) parse_elements.simps) (auto split: list.splits)
  then have r': "length r' < length r1" by (rule skip_ws_Cons)
  from "2.prems" pv guard ws
  consider "d = 0x2C" "parse_elements (acc @ [v1]) r' = Some (v, r)" | "r = r'"
    by (subst (asm) parse_elements.simps) (auto split: if_splits)
  then show ?case
  proof cases
    case 1
    from "2.IH"(2) [OF pv refl guard ws 1(1) 1(2)] r' guard show ?thesis by simp
  next
    case 2
    with r' guard show ?thesis by simp
  qed
next
  case (3 macc s)
  from "3.prems" obtain q r0 where ws0: "skip_ws s = q # r0"
    by (subst (asm) parse_members.simps) (auto split: list.splits)
  from "3.prems" ws0 have q: "q = 0x22"
    by (subst (asm) parse_members.simps) (auto split: if_splits)
  from "3.prems" ws0 q obtain k r1 where key: "parse_chars r0 = Some (k, r1)"
    by (subst (asm) parse_members.simps) (auto split: option.splits)
  from "3.prems" ws0 q key obtain col r2 where ws1: "skip_ws r1 = col # r2"
    by (subst (asm) parse_members.simps) (auto split: list.splits)
  from "3.prems" ws0 q key ws1 have colon: "col = 0x3A \<and> length r2 < length s"
    by (subst (asm) parse_members.simps) (auto split: if_splits)
  from "3.prems" ws0 q key ws1 colon obtain v1 r3 where pv: "parse_value r2 = Some (v1, r3)"
    by (subst (asm) parse_members.simps) (auto split: option.splits)
  from "3.prems" ws0 q key ws1 colon pv have guard: "length r3 < length s"
    by (subst (asm) parse_members.simps) (auto split: if_splits)
  from "3.prems" ws0 q key ws1 colon pv guard obtain d r' where ws2: "skip_ws r3 = d # r'"
    by (subst (asm) parse_members.simps) (auto split: list.splits)
  then have r': "length r' < length r3" by (rule skip_ws_Cons)
  from "3.prems" ws0 q key ws1 colon pv guard ws2
  consider "d = 0x2C" "parse_members (macc @ [(k, v1)]) r' = Some (v, r)" | "r = r'"
    by (subst (asm) parse_members.simps) (auto split: if_splits)
  then show ?case
  proof cases
    case 1
    from "3.IH"(2) [OF ws0 q key refl ws1 colon pv refl guard ws2 1(1) 1(2)] r' guard
    show ?thesis by simp
  next
    case 2
    with r' guard show ?thesis by simp
  qed
qed


lemma parse_elements_unguarded:
  "parse_elements acc s =
     (case parse_value s of
        None \<Rightarrow> None
      | Some (v, r) \<Rightarrow>
          (case skip_ws r of
             [] \<Rightarrow> None
           | d # r' \<Rightarrow>
               if d = 0x2C then parse_elements (acc @ [v]) r'
               else if d = 0x5D then Some (JArr (acc @ [v]), r')
               else None))"
  by (subst parse_elements.simps) (auto split: option.splits dest: parse_shorter(1))

lemma parse_members_unguarded:
  "parse_members acc s =
     (case skip_ws s of
        [] \<Rightarrow> None
      | q # r0 \<Rightarrow>
          if q = 0x22 then
            (case parse_chars r0 of
               None \<Rightarrow> None
             | Some (k, r1) \<Rightarrow>
                 (case skip_ws r1 of
                    [] \<Rightarrow> None
                  | col # r2 \<Rightarrow>
                      if col = 0x3A then
                        (case parse_value r2 of
                           None \<Rightarrow> None
                         | Some (v, r) \<Rightarrow>
                             (case skip_ws r of
                                [] \<Rightarrow> None
                              | d # r' \<Rightarrow>
                                  if d = 0x2C then parse_members (acc @ [(k, v)]) r'
                                  else if d = 0x7D then Some (JObj (acc @ [(k, v)]), r')
                                  else None))
                      else None))
          else None)"
proof -
  have colon: "length r2 < length s"
    if "skip_ws s = q # r0" "parse_chars r0 = Some (k, r1)" "skip_ws r1 = col # r2"
    for q r0 k r1 col r2
    using skip_ws_Cons [OF that(1)] parse_chars_shorter [OF that(2)] skip_ws_Cons [OF that(3)]
    by simp
  have "value": "length r < length s"
    if "skip_ws s = q # r0" "parse_chars r0 = Some (k, r1)" "skip_ws r1 = col # r2"
      "parse_value r2 = Some (v, r)"
    for q r0 k r1 col r2 v r
    using colon [OF that(1-3)] parse_shorter(1) [OF that(4)] by simp
  show ?thesis
    by (subst parse_members.simps)
      (auto split: list.splits option.splits dest: colon "value")
qed

subsection \<open>The handler\<close>

lemma length_trim_le: "length (trim s) \<le> length s"
proof -
  have "length (trim s) = length (dropWhile is_space (rev (dropWhile is_space s)))"
    by (simp add: trim_def)
  also have "\<dots> \<le> length (rev (dropWhile is_space s))"
    by (rule length_dropWhile_le)
  also have "\<dots> \<le> length s"
    by (simp add: length_dropWhile_le)
  finally show ?thesis .
qed

lemma substring_0: "substring 0 n s = take n s"
  by (simp add: substring_def)

lemma analyze_resume_short:
  assumes "resume req = Some (JStr r)" and "length (trim r) < 50"
  shows "analyze rt groq req =
    (Respond 400 [(''error'', JStr (js ''Resume must be at least 50 characters.''))], [])"
  using assms by (simp add: analyze_def)

lemma analyze_jd_short:
  assumes "resume req = Some (JStr r)" and "\<not> length (trim r) < 50"
    and "jobDescription req = Some (JStr j)" and "length (trim j) < 30"
  shows "analyze rt groq req =
    (Respond 400 [(''error'', JStr (js ''Job description must be at least 30 characters.''))], [])"
proof -
  from assms(2) have "r \<noteq> []" by (auto simp: trim_def)
  with assms show ?thesis by (simp add: analyze_def)
qed

lemma analyze_valid:
  assumes "resume req = Some (JStr r)" and "jobDescription req = Some (JStr j)"
    and "50 \<le> length (trim r)" and "30 \<le> length (trim j)"
  shows "analyze rt groq req =
    (case groq (create_params (take 6000 (trim r)) (take 3000 (trim j))) of
       Rejected e \<Rightarrow> (Next e, [create_params (take 6000 (trim r)) (take 3000 (trim j))])
     | Resolved choices \<Rightarrow>
         (case choices of
            [] \<Rightarrow>
              (Next (type_error rt (js ''Cannot read properties of undefined (reading 'message')'')),
               [create_params (take 6000 (trim r)) (take 3000 (trim j))])
          | rawContent # others \<Rightarrow>
              (case parse_content rawContent of
                 None \<Rightarrow>
                   (Respond 500
                      [(''error'', JStr (js ''AI returned unexpected format. Please try again.''))],
                    [create_params (take 6000 (trim r)) (take 3000 (trim j))])
               | Some v \<Rightarrow>
                   (Respond 200 [(''success'', JBool True), (''data'', v)],
                    [create_params (take 6000 (trim r)) (take 3000 (trim j))]))))"
proof -
  from assms(3) have "r \<noteq> []" by (auto simp: trim_def)
  moreover from assms(4) have "j \<noteq> []" by (auto simp: trim_def)
  ultimately show ?thesis
    using assms by (simp add: analyze_def substring_0 Let_def)
qed

lemma analyze_valid_calls:
  assumes "resume req = Some (JStr r)" and "jobDescription req = Some (JStr j)"
    and "50 \<le> length (trim r)" and "30 \<le> length (trim j)"
  shows "snd (analyze rt groq req) = [create_params (take 6000 (trim r)) (take 3000 (trim j))]"
  unfolding analyze_valid [OF assms]
  by (simp split: upstream.split list.split option.split)

lemma snd_post_analyze: "snd (post_analyze rt groq req) = snd (analyze rt groq req)"
  by (cases "analyze rt groq req") (simp add: post_analyze_def split: result.split)

lemma user_content_create_params:
  "contents_of ''user'' (create_params a b) =
     [js ''Analyze this resume against the job description.'' @ [0x0A, 0x0A]
      @ js ''=== RESUME ==='' @ [0x0A] @ a @ [0x0A, 0x0A]
      @ js ''=== JOB DESCRIPTION ==='' @ [0x0A] @ b @ [0x0A, 0x0A]
      @ js ''Return ONLY the JSON object.'']"
  by (simp add: contents_of_def create_params_def join_lines_def)

lemma call_trim_Inr: "call_trim rt name v = Inr s \<longleftrightarrow> (\<exists>t. v = Some (JStr t) \<and> s = trim t)"
  by (cases "(rt, name, v)" rule: call_trim.cases) auto

lemma analyze_calls_independent:
  "snd (analyze rt groq req) = snd (analyze rt' groq' req)"
proof (cases "\<exists>r j. resume req = Some (JStr r) \<and> jobDescription req = Some (JStr j)
    \<and> 50 \<le> length (trim r) \<and> 30 \<le> length (trim j)")
  case True
  then obtain r j where v: "resume req = Some (JStr r)" "jobDescription req = Some (JStr j)"
    "50 \<le> length (trim r)" "30 \<le> length (trim j)" by blast
  show ?thesis by (simp add: analyze_valid_calls [OF v])
next
  case False
  have "snd (analyze rt0 groq0 req) = []" for rt0 groq0
    using False unfolding analyze_def
    by (auto simp: call_trim_Inr not_less split: sum.splits)
  then show ?thesis by simp
qed

lemma analyze_outcomes:
  "(\<exists>e. fst (analyze rt groq req) = Next e)
   \<or> (\<exists>code msg. fst (analyze rt groq req) = Respond code [(''error'', JStr msg)])
   \<or> (\<exists>v. fst (analyze rt groq req) = Respond 200 [(''success'', JBool True), (''data'', v)])"
  unfolding analyze_def
  by (simp add: Let_def split: sum.split upstream.split list.split option.split)

lemma scenario_valid:
  "resume scenario_request = Some (JStr scenario_resume)"
  "jobDescription scenario_request = Some (JStr scenario_jd)"
  "50 \<le> length (trim scenario_resume)"
  "30 \<le> length (trim scenario_jd)"
  by (simp_all add: scenario_request_def scenario_resume_def scenario_jd_def js_def trim_def
      is_space_def)

lemma short_request_fields:
  "resume short_request = Some (JStr (js ''John Smith''))"
  "jobDescription short_request = Some (JStr (js ''Node.js job''))"
  "length (js ''John Smith'') = 10"
  "length (trim (js ''John Smith'')) < 50"
  "length (trim (js ''Node.js job'')) < 30"
  by (simp_all add: short_request_def js_def trim_def is_space_def)

lemma trim_replicate: "\<not> is_space c \<Longrightarrow> trim (replicate n c) = replicate n c"
  by (cases n) (simp_all add: trim_def replicate_append_same)

lemma long_request_valid:
  "resume long_request = Some (JStr (replicate 7000 0x61))"
  "jobDescription long_request = Some (JStr (replicate 4000 0x62))"
  "50 \<le> length (trim (replicate 7000 (0x61 :: code_unit)))"
  "30 \<le> length (trim (replicate 4000 (0x62 :: code_unit)))"
  by (simp_all add: long_request_def trim_replicate is_space_def)

subsection \<open>Fence stripping\<close>

lemma canonicalize_tick: "canonicalize c = 0x60 \<longleftrightarrow> c = 0x60"
  unfolding canonicalize_def by (auto; unat_arith)

lemma js_tick3: "js ''```'' = [0x60, 0x60, 0x60]"
  by (simp add: js_def)

lemma js_tick_json: "js ''```json'' = [0x60, 0x60, 0x60, 0x6A, 0x73, 0x6F, 0x6E]"
  by (simp add: js_def)

lemma canonicalize_0x60: "canonicalize 0x60 = 0x60"
  by (simp add: canonicalize_def)

lemma literal_at_tick3:
  "literal_at [0x60, 0x60, 0x60] s \<longleftrightarrow> (\<exists>t. s = 0x60 # 0x60 # 0x60 # t)"
proof (cases s)
  case Nil
  then show ?thesis by simp
next
  case (Cons a s1)
  show ?thesis
  proof (cases s1)
    case Nil
    with Cons show ?thesis by simp
  next
    case (Cons b s2)
    show ?thesis
    proof (cases s2)
      case Nil
      with \<open>s = a # s1\<close> \<open>s1 = b # s2\<close> show ?thesis by simp
    next
      case (Cons c s3)
      with \<open>s = a # s1\<close> \<open>s1 = b # s2\<close> show ?thesis
        by (simp add: canonicalize_0x60 canonicalize_tick)
    qed
  qed
qed

lemma fence_eq_None: "fence s = None \<longleftrightarrow> \<not> (\<exists>t. s = 0x60 # 0x60 # 0x60 # t)"
  by (simp add: fence_def literal_then_spaces_def js_tick3 literal_at_tick3)

lemma literal_at_append: "literal_at (p @ q) s \<Longrightarrow> literal_at p s"
  by (induction p s rule: literal_at.induct) auto

lemma json_fence_imp_fence: "fence s = None \<Longrightarrow> json_fence s = None"
proof -
  have "js ''```json'' = js ''```'' @ js ''json''" by (simp add: js_def)
  then have "literal_at (js ''```json'') s \<Longrightarrow> literal_at (js ''```'') s"
    using literal_at_append by metis
  then show "fence s = None \<Longrightarrow> json_fence s = None"
    by (auto simp: fence_def json_fence_def literal_then_spaces_def split: if_splits)
qed

lemma remove_all_absent: "\<not> occurs m s \<Longrightarrow> remove_all m s = s"
  by (induction s) auto

lemma no_json_fence: "\<not> occurs fence s \<Longrightarrow> \<not> occurs json_fence s"
  by (induction s) (auto simp: json_fence_imp_fence)

lemma remove_json_fence_tail:
  "remove_all json_fence [0x0A, 0x60, 0x60, 0x60] = [0x0A, 0x60, 0x60, 0x60]"
  "remove_all json_fence [0x60, 0x60, 0x60] = [0x60, 0x60, 0x60]"
  by (simp_all add: json_fence_def literal_then_spaces_def js_tick_json canonicalize_def)

lemma remove_fence_tail:
  "remove_all fence [0x0A, 0x60, 0x60, 0x60] = [0x0A]"
  "remove_all fence [0x60, 0x60, 0x60] = []"
  by (simp_all add: fence_def literal_then_spaces_def js_tick3 canonicalize_def)

lemma trim_all_space: "\<forall>c\<in>set s. is_space c \<Longrightarrow> trim s = []"
proof -
  assume "\<forall>c\<in>set s. is_space c"
  then have "dropWhile is_space s = []" by (simp only: dropWhile_eq_Nil_conv)
  then show ?thesis by (simp only: trim_def rev.simps dropWhile.simps)
qed

lemma trim_snoc_space:
  assumes "is_space c"
  shows "trim (s @ [c]) = trim s"
proof (cases "\<forall>d\<in>set s. is_space d")
  case True
  with assms have "\<forall>d\<in>set (s @ [c]). is_space d" by simp
  then have "trim (s @ [c]) = []" by (rule trim_all_space)
  moreover from True have "trim s = []" by (rule trim_all_space)
  ultimately show ?thesis by simp
next
  case False
  then obtain d where "d \<in> set s" and "\<not> is_space d" by blast
  then have "dropWhile is_space (s @ [c]) = dropWhile is_space s @ [c]"
    by (rule dropWhile_append1)
  then show ?thesis unfolding trim_def using assms by simp
qed


lemma is_space_newline: "is_space 0x0A" and not_space_tick: "\<not> is_space 0x60"
  by (simp_all add: is_space_def)


lemma literal_at_length: "literal_at p s \<Longrightarrow> length p \<le> length s"
  by (induction p s rule: literal_at.induct) auto

lemma literal_at_before:
  assumes "\<forall>q\<in>set p. canonicalize q \<noteq> canonicalize c"
  shows "literal_at p (y @ c # t) = literal_at p y"
  using assms by (induction p y rule: literal_at.induct) auto

text \<open>Where the literal matches, the scan goes on after the white space that follows it.\<close>

lemma remove_all_at_match:
  assumes "literal_at p s" and "p \<noteq> []"
  shows "remove_all (literal_then_spaces p) s =
    remove_all (literal_then_spaces p) (dropWhile is_space (drop (length p) s))"
proof -
  let ?k = "length (takeWhile is_space (drop (length p) s))"
  from assms have "0 < length p" and "length p \<le> length s"
    by (simp_all add: literal_at_length)
  then obtain c cs n where s: "s = c # cs" and n: "length p = Suc n"
    by (cases s; cases "length p") auto
  have "literal_then_spaces p (c # cs) = Some (Suc (n + ?k))"
    using assms(1) by (simp add: literal_then_spaces_def s n)
  then have "remove_all (literal_then_spaces p) (c # cs) =
      remove_all (literal_then_spaces p) (drop (n + ?k) cs)"
    by simp
  also have "drop (n + ?k) cs = drop ?k (drop (length p) s)"
    by (simp add: s n add.commute)
  also have "\<dots> = dropWhile is_space (drop (length p) s)"
    by (simp add: dropWhile_eq_drop)
  finally show ?thesis by (simp add: s)
qed

lemma remove_all_no_match:
  assumes "\<not> literal_at p (c # cs)"
  shows "remove_all (literal_then_spaces p) (c # cs) = c # remove_all (literal_then_spaces p) cs"
  using assms by (simp add: literal_then_spaces_def)

text \<open>
  A closing fence line after a text: the removal of the text is not disturbed, and what is
  left of the line is what the removal leaves of the line, or of the fence alone when the
  new line has been taken as white space after a match.
\<close>

lemma remove_all_closing_line:
  assumes "p \<noteq> []" and "\<forall>q\<in>set p. canonicalize q \<noteq> 0x0A"
  shows "remove_all (literal_then_spaces p) (x @ [0x0A, 0x60, 0x60, 0x60]) =
           remove_all (literal_then_spaces p) x
           @ remove_all (literal_then_spaces p) [0x0A, 0x60, 0x60, 0x60]
       \<or> remove_all (literal_then_spaces p) (x @ [0x0A, 0x60, 0x60, 0x60]) =
           remove_all (literal_then_spaces p) x
           @ remove_all (literal_then_spaces p) [0x60, 0x60, 0x60]"
proof (induction x rule: length_induct)
  case (1 x)
  let ?m = "literal_then_spaces p"
  let ?line = "[0x0A, 0x60, 0x60, 0x60] :: jsstring"
  let ?ticks = "[0x60, 0x60, 0x60] :: jsstring"
  have IH: "remove_all ?m (y @ ?line) = remove_all ?m y @ remove_all ?m ?line
      \<or> remove_all ?m (y @ ?line) = remove_all ?m y @ remove_all ?m ?ticks"
    if "length y < length x" for y
    using "1.IH" that by blast
  have nl: "canonicalize 0x0A = 0x0A" by (simp add: canonicalize_def)
  show ?case
  proof (cases x)
    case Nil
    then show ?thesis by simp
  next
    case (Cons c cs)
    have same: "literal_at p (x @ ?line) = literal_at p x"
      using literal_at_before [of p "0x0A" x ?ticks] assms(2) by (simp add: nl)
    show ?thesis
    proof (cases "literal_at p x")
      case True
      let ?d = "drop (length p) x"
      from True have len: "length p \<le> length x" by (rule literal_at_length)
      from True same have "literal_at p (x @ ?line)" by simp
      then have whole: "remove_all ?m (x @ ?line) =
          remove_all ?m (dropWhile is_space (?d @ ?line))"
        using remove_all_at_match [OF _ assms(1), of "x @ ?line"] len by simp
      have part: "remove_all ?m x = remove_all ?m (dropWhile is_space ?d)"
        using True assms(1) by (rule remove_all_at_match)
      show ?thesis
      proof (cases "\<forall>a\<in>set ?d. is_space a")
        case True
        then have "dropWhile is_space ?d = []" by (simp only: dropWhile_eq_Nil_conv)
        moreover from True have "dropWhile is_space (?d @ ?line) = dropWhile is_space ?line"
          by (simp only: dropWhile_append2)
        then have "dropWhile is_space (?d @ ?line) = ?ticks"
          by (simp add: is_space_newline not_space_tick)
        ultimately show ?thesis
          unfolding whole part by (simp only: remove_all.simps append_Nil simp_thms)
      next
        case False
        then obtain a where "a \<in> set ?d" and "\<not> is_space a" by blast
        then have "dropWhile is_space (?d @ ?line) = dropWhile is_space ?d @ ?line"
          by (rule dropWhile_append1)
        moreover have "length (dropWhile is_space ?d) < length x"
          using length_dropWhile_le [of is_space ?d] assms(1) Cons by (cases p) auto
        ultimately show ?thesis
          unfolding whole part using IH by simp
      qed
    next
      case False
      with same have "\<not> literal_at p ((c # cs) @ ?line)" by (simp add: Cons)
      then have "remove_all ?m (x @ ?line) = c # remove_all ?m (cs @ ?line)"
        using remove_all_no_match [of p c "cs @ ?line"] by (simp add: Cons)
      moreover from False have "remove_all ?m x = c # remove_all ?m cs"
        using remove_all_no_match [of p c cs] by (simp add: Cons)
      ultimately show ?thesis
        using IH [of cs] by (simp add: Cons)
    qed
  qed
qed


lemma fence_literal: "fence = literal_then_spaces [0x60, 0x60, 0x60]"
  by (simp add: fence_def js_tick3)

lemma json_fence_literal:
  "json_fence = literal_then_spaces [0x60, 0x60, 0x60, 0x6A, 0x73, 0x6F, 0x6E]"
  by (simp add: json_fence_def js_tick_json)

lemma fence_at_ticks:
  "fence (0x60 # 0x60 # 0x60 # t) = Some (Suc (Suc (Suc (length (takeWhile is_space t)))))"
  by (simp add: fence_literal literal_then_spaces_def canonicalize_0x60)

lemma remove_fence_at_ticks:
  "remove_all fence (0x60 # 0x60 # 0x60 # t) = remove_all fence (dropWhile is_space t)"
  by (simp add: fence_at_ticks dropWhile_eq_drop)

lemma remove_fence_elsewhere:
  "\<not> (\<exists>t. c # cs = 0x60 # 0x60 # 0x60 # t) \<Longrightarrow>
     remove_all fence (c # cs) = c # remove_all fence cs"
  using fence_eq_None [of "c # cs"] by simp

text \<open>A fence right after a text is removed, and the removal of the text is as without it.\<close>

lemma remove_fence_closing_ticks:
  "remove_all fence (y @ [0x60, 0x60, 0x60]) = remove_all fence y"
proof (induction y rule: length_induct)
  case (1 y)
  let ?ticks = "[0x60, 0x60, 0x60] :: jsstring"
  have IH: "remove_all fence (z @ ?ticks) = remove_all fence z" if "length z < length y" for z
    using "1.IH" that by blast
  have short: "remove_all fence [] = []" "remove_all fence [0x60] = [0x60]"
    "remove_all fence [0x60, 0x60] = [0x60, 0x60]"
    by (simp_all add: remove_fence_elsewhere del: remove_all.simps(2))
  consider "y = []" | a where "y = [a]" | a b where "y = [a, b]"
    | a b c t where "y = a # b # c # t"
    by (metis list.exhaust)
  then show ?case
  proof cases
    case 1
    then show ?thesis by (simp add: remove_fence_tail del: remove_all.simps(2))
  next
    case 2
    show ?thesis
    proof (cases "a = 0x60")
      case True
      then show ?thesis
        unfolding 2 by (simp add: remove_fence_at_ticks not_space_tick short del: remove_all.simps(2))
    next
      case False
      then have "remove_all fence ([a] @ ?ticks) = a # remove_all fence ([] @ ?ticks)"
        by (simp add: remove_fence_elsewhere del: remove_all.simps(2))
      moreover from False have "remove_all fence [a] = a # remove_all fence []"
        by (simp add: remove_fence_elsewhere del: remove_all.simps(2))
      ultimately show ?thesis
        unfolding 2 using IH [of "[]"] 2 by simp
    qed
  next
    case 3
    show ?thesis
    proof (cases "a = 0x60 \<and> b = 0x60")
      case True
      then show ?thesis
        unfolding 3 by (simp add: remove_fence_at_ticks not_space_tick short del: remove_all.simps(2))
    next
      case False
      then have "remove_all fence ([a, b] @ ?ticks) = a # remove_all fence ([b] @ ?ticks)"
        by (auto simp add: remove_fence_elsewhere simp del: remove_all.simps(2))
      moreover from False have "remove_all fence [a, b] = a # remove_all fence [b]"
        by (simp add: remove_fence_elsewhere del: remove_all.simps(2))
      ultimately show ?thesis
        unfolding 3 using IH [of "[b]"] 3 by simp
    qed
  next
    case 4
    show ?thesis
    proof (cases "a = 0x60 \<and> b = 0x60 \<and> c = 0x60")
      case True
      with 4 have y: "y = 0x60 # 0x60 # 0x60 # t" by simp
      have le: "length (dropWhile is_space t) < length y"
        using length_dropWhile_le [of is_space t] by (simp add: 4)
      have whole: "remove_all fence (y @ ?ticks) =
          remove_all fence (dropWhile is_space (t @ ?ticks))"
        by (simp only: y append_Cons remove_fence_at_ticks)
      have part: "remove_all fence y = remove_all fence (dropWhile is_space t)"
        by (simp only: y remove_fence_at_ticks)
      show ?thesis
      proof (cases "\<forall>d\<in>set t. is_space d")
        case all: True
        then have none: "dropWhile is_space t = []" by (simp only: dropWhile_eq_Nil_conv)
        from all have "dropWhile is_space (t @ ?ticks) = dropWhile is_space ?ticks"
          by (simp only: dropWhile_append2)
        also have "\<dots> = ?ticks"
          by (simp add: not_space_tick)
        finally show ?thesis
          by (simp only: whole part none remove_fence_tail remove_all.simps(1))
      next
        case False
        then obtain d where "d \<in> set t" and "\<not> is_space d" by blast
        then have "dropWhile is_space (t @ ?ticks) = dropWhile is_space t @ ?ticks"
          by (rule dropWhile_append1)
        then show ?thesis
          by (simp only: whole part IH [OF le])
      qed
    next
      case False
      then have "remove_all fence ((a # b # c # t) @ ?ticks) =
          a # remove_all fence ((b # c # t) @ ?ticks)"
        by (auto simp add: remove_fence_elsewhere simp del: remove_all.simps(2))
      moreover from False have "remove_all fence (a # b # c # t) = a # remove_all fence (b # c # t)"
        by (auto simp add: remove_fence_elsewhere simp del: remove_all.simps(2))
      ultimately show ?thesis
        unfolding 4 using IH [of "b # c # t"] 4 by simp
    qed
  qed
qed


text \<open>White space in front of a text is left where it is, and \<open>trim\<close> takes it away.\<close>

lemma remove_all_after_spaces:
  assumes "\<forall>c\<in>set w. is_space c" and "m = fence \<or> m = json_fence"
  shows "remove_all m (w @ s) = w @ remove_all m s"
  using assms(1)
proof (induction w)
  case Nil
  show ?case by simp
next
  case (Cons c w)
  then have "c \<noteq> 0x60" using not_space_tick by auto
  then have "fence (c # w @ s) = None" by (simp add: fence_eq_None)
  with assms(2) have "m (c # w @ s) = None" by (auto simp: json_fence_imp_fence)
  with Cons show ?case by simp
qed

lemma trim_after_spaces:
  assumes "\<forall>c\<in>set w. is_space c"
  shows "trim (w @ s) = trim s"
proof -
  from assms have "dropWhile is_space (w @ s) = dropWhile is_space s"
    by (simp only: dropWhile_append2)
  then show ?thesis by (simp only: trim_def)
qed

lemma split_leading_spaces:
  "s = takeWhile is_space s @ dropWhile is_space s"
  "\<forall>c\<in>set (takeWhile is_space s). is_space c"
  by (simp, blast dest: set_takeWhileD)

lemma cleaned_after_spaces:
  assumes "\<forall>c\<in>set w. is_space c"
  shows "cleaned (w @ s) = cleaned s"
proof -
  have first: "remove_all json_fence (w @ s) = w @ remove_all json_fence s"
    using assms by (rule remove_all_after_spaces) simp
  have second: "remove_all fence (w @ z) = w @ remove_all fence z" for z
    using assms by (rule remove_all_after_spaces) simp
  show ?thesis
    by (simp only: cleaned_def strip_fences_def first second trim_after_spaces [OF assms])
qed

lemma cleaned_dropWhile: "cleaned (dropWhile is_space s) = cleaned s"
  using cleaned_after_spaces [OF split_leading_spaces(2), of s "dropWhile is_space s"]
  by simp

lemma trim_remove_fence_dropWhile:
  "trim (remove_all fence (dropWhile is_space s)) = trim (remove_all fence s)"
proof -
  let ?w = "takeWhile is_space s"
  have w: "\<forall>c\<in>set ?w. is_space c" by (rule split_leading_spaces(2))
  have "remove_all fence (?w @ dropWhile is_space s) =
      ?w @ remove_all fence (dropWhile is_space s)"
    using w by (rule remove_all_after_spaces) simp
  then have "remove_all fence s = ?w @ remove_all fence (dropWhile is_space s)"
    by simp
  then show ?thesis
    by (simp only: trim_after_spaces [OF w])
qed

lemma closing_line_patterns:
  "[0x60, 0x60, 0x60] \<noteq> ([] :: jsstring)"
  "\<forall>q\<in>set [0x60, 0x60, 0x60]. canonicalize q \<noteq> (0x0A :: code_unit)"
  "[0x60, 0x60, 0x60, 0x6A, 0x73, 0x6F, 0x6E] \<noteq> ([] :: jsstring)"
  "\<forall>q\<in>set [0x60, 0x60, 0x60, 0x6A, 0x73, 0x6F, 0x6E]. canonicalize q \<noteq> (0x0A :: code_unit)"
  by (simp_all add: canonicalize_def)

lemmas remove_fence_closing_line =
  remove_all_closing_line [OF closing_line_patterns(1,2), folded fence_literal,
    unfolded remove_fence_tail]

lemmas remove_json_fence_closing_line =
  remove_all_closing_line [OF closing_line_patterns(3,4), folded json_fence_literal,
    unfolded remove_json_fence_tail]

text \<open>A closing fence line does not change the cleaned text.\<close>

lemma cleaned_closing_line: "cleaned (x @ [0x0A, 0x60, 0x60, 0x60]) = cleaned x"
proof -
  let ?line = "[0x0A, 0x60, 0x60, 0x60] :: jsstring"
  let ?y = "remove_all json_fence x"
  have after_fence: "trim (remove_all fence (y @ ?line)) = trim (remove_all fence y)" for y
    using remove_fence_closing_line [of y]
  proof
    assume "remove_all fence (y @ ?line) = remove_all fence y @ [0x0A]"
    then show ?thesis
      by (simp only: trim_snoc_space [OF is_space_newline])
  next
    assume "remove_all fence (y @ ?line) = remove_all fence y @ []"
    then show ?thesis
      by (simp only: append_Nil2)
  qed
  from remove_json_fence_closing_line [of x] show ?thesis
  proof
    assume "remove_all json_fence (x @ ?line) = ?y @ ?line"
    then show ?thesis
      by (simp only: cleaned_def strip_fences_def after_fence)
  next
    assume "remove_all json_fence (x @ ?line) = ?y @ [0x60, 0x60, 0x60]"
    then show ?thesis
      by (simp only: cleaned_def strip_fences_def remove_fence_closing_ticks)
  qed
qed


text \<open>An opening fence line does not change the cleaned text either.\<close>

lemma cleaned_json_opening: "cleaned (js ''```json'' @ s) = cleaned s"
proof -
  let ?p = "[0x60, 0x60, 0x60, 0x6A, 0x73, 0x6F, 0x6E] :: jsstring"
  have "literal_at ?p (?p @ s)"
    by simp
  then have "remove_all json_fence (?p @ s) =
      remove_all json_fence (dropWhile is_space (drop (length ?p) (?p @ s)))"
    unfolding json_fence_literal by (rule remove_all_at_match) simp
  then have "remove_all json_fence (?p @ s) = remove_all json_fence (dropWhile is_space s)"
    by simp
  then have "cleaned (?p @ s) = cleaned (dropWhile is_space s)"
    by (simp only: cleaned_def strip_fences_def)
  then show ?thesis
    by (simp only: js_tick_json cleaned_dropWhile)
qed

lemma cleaned_plain_opening: "cleaned (js ''```'' @ 0x0A # s) = cleaned s"
proof -
  let ?ticks = "[0x60, 0x60, 0x60] :: jsstring"
  have "remove_all json_fence (?ticks @ 0x0A # s) = ?ticks @ 0x0A # remove_all json_fence s"
    by (simp add: json_fence_literal literal_then_spaces_def canonicalize_def)
  moreover have "remove_all fence (?ticks @ 0x0A # z) =
      remove_all fence (dropWhile is_space z)" for z
    by (simp add: remove_fence_at_ticks is_space_newline del: remove_all.simps(2))
  ultimately have "cleaned (?ticks @ 0x0A # s) =
      trim (remove_all fence (dropWhile is_space (remove_all json_fence s)))"
    by (simp only: cleaned_def strip_fences_def)
  then show ?thesis
    by (simp only: js_tick3 trim_remove_fence_dropWhile cleaned_def strip_fences_def)
qed

lemma cleaned_fenced:
  "cleaned (js ''```json'' @ 0x0A # x @ 0x0A # js ''```'') = cleaned x"
  "cleaned (js ''```'' @ 0x0A # x @ 0x0A # js ''```'') = cleaned x"
proof -
  have line: "0x0A # x @ 0x0A # js ''```'' = ([0x0A] @ x) @ [0x0A, 0x60, 0x60, 0x60]"
    by (simp add: js_tick3)
  have inner: "cleaned ([0x0A] @ x) = cleaned x"
    by (rule cleaned_after_spaces) (simp add: is_space_newline)
  show "cleaned (js ''```json'' @ 0x0A # x @ 0x0A # js ''```'') = cleaned x"
    by (simp only: cleaned_json_opening line cleaned_closing_line inner)
  have "x @ 0x0A # js ''```'' = x @ [0x0A, 0x60, 0x60, 0x60]"
    by (simp add: js_tick3)
  then show "cleaned (js ''```'' @ 0x0A # x @ 0x0A # js ''```'') = cleaned x"
    by (simp only: cleaned_plain_opening cleaned_closing_line)
qed

text \<open>The removals never lengthen a text, and shorten it where the pattern occurs.\<close>

lemma remove_all_length_le: "length (remove_all m s) \<le> length s"
proof (induction s rule: length_induct)
  case (1 s)
  show ?case
  proof (cases s)
    case Nil
    then show ?thesis by simp
  next
    case (Cons c cs)
    have "length (remove_all m (drop n cs)) \<le> length cs" for n
    proof -
      have "length (drop n cs) < length s" by (simp add: Cons less_Suc_eq_le)
      with "1.IH" have "length (remove_all m (drop n cs)) \<le> length (drop n cs)" by blast
      then show ?thesis by simp
    qed
    moreover have "length (remove_all m cs) \<le> length cs"
      using "1.IH" [rule_format, of cs] Cons by simp
    ultimately show ?thesis
      by (auto simp: Cons le_Suc_eq split: option.splits nat.splits)
  qed
qed

lemma remove_all_length_less:
  assumes "occurs m s" and "\<And>t. m t \<noteq> Some 0"
  shows "length (remove_all m s) < length s"
  using assms(1)
proof (induction s)
  case Nil
  then show ?case by simp
next
  case (Cons c cs)
  show ?case
  proof (cases "m (c # cs)")
    case None
    with Cons show ?thesis by simp
  next
    case (Some k)
    with assms(2) obtain n where "k = Suc n" by (cases k) auto
    with Some show ?thesis
      using remove_all_length_le [of m "drop n cs"] by simp
  qed
qed

lemma match_not_empty: "fence t \<noteq> Some 0" "json_fence t \<noteq> Some 0"
  by (simp_all add: fence_literal json_fence_literal literal_then_spaces_def)

lemma strip_fences_changes:
  assumes "occurs fence x"
  shows "length (strip_fences x) < length x"
proof (cases "occurs json_fence x")
  case True
  then have "length (remove_all json_fence x) < length x"
    by (rule remove_all_length_less) (rule match_not_empty)
  with remove_all_length_le [of fence "remove_all json_fence x"] show ?thesis
    by (simp add: strip_fences_def)
next
  case False
  then have "remove_all json_fence x = x" by (rule remove_all_absent)
  moreover from assms have "length (remove_all fence x) < length x"
    by (rule remove_all_length_less) (rule match_not_empty)
  ultimately show ?thesis by (simp add: strip_fences_def)
qed

lemma strip_fences_absent:
  assumes "\<not> occurs fence x"
  shows "strip_fences x = x"
  using assms by (simp add: strip_fences_def remove_all_absent no_json_fence)

subsection \<open>The scenarios\<close>

lemma scenario_parses:
  "JSON_parse (cleaned (fenced (scenario_json ''85''))) = Some (scenario_value 85)"
  "JSON_parse (cleaned (fenced (scenario_json ''150''))) = Some (scenario_value 150)"
  by code_simp+

lemma scenario_keys:
  "has_required_keys (scenario_value 85)"
  "has_required_keys (scenario_value 150)"
  by code_simp+

lemma scenario_replies:
  "reply_with raw (create_params a b) = Resolved (Some raw # [])"
  by (simp add: reply_with_def)

section \<open>Input validation\<close>

text \<open>
  Claim C4. When both fields are strings and the trimmed resume has fewer than 50 code units
  or the trimmed job description fewer than 30, the response is status 400 with the error
  message of the first failed check, and no call to the remote model is made; a resume of
  10 characters gets exactly the body \<open>{error: "Resume must be at least 50 characters."}\<close>.
\<close>

theorem short_input_rejected:
  assumes "resume req = Some (JStr r)" and "jobDescription req = Some (JStr j)"
    and "length (trim r) < 50 \<or> length (trim j) < 30"
  shows "post_analyze rt groq req =
           ((400, [(''error'', JStr (if length (trim r) < 50
                                     then js ''Resume must be at least 50 characters.''
                                     else js ''Job description must be at least 30 characters.''))]), [])
         \<and> (length r = 10 \<longrightarrow>
              post_analyze rt groq req =
                ((400, [(''error'', JStr (js ''Resume must be at least 50 characters.''))]), []))"
proof -
  have main: "post_analyze rt groq req =
           ((400, [(''error'', JStr (if length (trim r) < 50
                                     then js ''Resume must be at least 50 characters.''
                                     else js ''Job description must be at least 30 characters.''))]), [])"
  proof (cases "length (trim r) < 50")
    case True
    then show ?thesis
      by (simp add: post_analyze_def analyze_resume_short [OF assms(1)])
  next
    case False
    with assms(3) have "length (trim j) < 30" by simp
    with False show ?thesis
      by (simp add: post_analyze_def analyze_jd_short [OF assms(1) _ assms(2)])
  qed
  moreover have "length r = 10 \<Longrightarrow> length (trim r) < 50"
    using length_trim_le [of r] by simp
  ultimately show ?thesis by simp
qed

theorem short_input_rejected_witness:
  "post_analyze scenario_runtime (reply_with []) short_request =
     ((400, [(''error'', JStr (js ''Resume must be at least 50 characters.''))]), [])"
  using short_input_rejected [of short_request "js ''John Smith''" "js ''Node.js job''"
      scenario_runtime "reply_with []"] short_request_fields
  by simp

text \<open>
  Claim C10. The resume is checked before the job description: when both trimmed texts are
  too short the response is the resume error, and the job description has no part in it
  (whatever stands in its place, the response is the same).
\<close>

theorem resume_checked_first:
  assumes "resume req = Some (JStr r)" and "jobDescription req = Some (JStr j)"
    and "length (trim r) < 50" and "length (trim j) < 30"
  shows "post_analyze rt groq req =
           ((400, [(''error'', JStr (js ''Resume must be at least 50 characters.''))]), [])
         \<and> post_analyze rt groq (req\<lparr>jobDescription := other\<rparr>) = post_analyze rt groq req"
proof -
  have "resume (req\<lparr>jobDescription := other\<rparr>) = Some (JStr r)"
    using assms(1) by simp
  then show ?thesis
    using assms(1,3) by (simp add: post_analyze_def analyze_resume_short)
qed

theorem resume_checked_first_witness:
  "post_analyze scenario_runtime (reply_with []) short_request =
     ((400, [(''error'', JStr (js ''Resume must be at least 50 characters.''))]), [])
   \<and> post_analyze scenario_runtime (reply_with [])
         (short_request\<lparr>jobDescription := Some (JArr [])\<rparr>) =
       post_analyze scenario_runtime (reply_with []) short_request"
  using resume_checked_first [of short_request "js ''John Smith''" "js ''Node.js job''"
      scenario_runtime "reply_with []" "Some (JArr [])"] short_request_fields
  by simp

text \<open>
  Claim C2 (the route departs from it). A resume that is present but not a string, here the
  number 12345, is not answered with a validation error of status 400: \<open>resume.trim\<close> is
  not a function, the TypeError goes to the global error handler and the response is status
  500. No call to the remote model is made.
\<close>

theorem non_string_resume_server_fault:
  "post_analyze scenario_runtime (reply_with [])
     \<lparr>resume = Some (JNum (Decimal 12345 0)), jobDescription = Some (JStr scenario_jd)\<rparr> =
     ((500, [(''error'', JStr (js ''resume.trim is not a function''))]), [])"
  by (simp add: post_analyze_def analyze_def error_handler_def type_error_def js_def
      scenario_runtime_def)

section \<open>The prompt\<close>

text \<open>
  Claim C5. For a validated pair of inputs exactly one call is made, and the texts it embeds
  are the first 6000 code units of the trimmed resume and the first 3000 of the trimmed job
  description; the user message is as long as its fixed text (121 code units) and these two
  prefixes together, so nothing beyond the caps is in it.
\<close>

theorem truncation_exact:
  assumes "resume req = Some (JStr r)" and "jobDescription req = Some (JStr j)"
    and "50 \<le> length (trim r)" and "30 \<le> length (trim j)"
  shows "snd (post_analyze rt groq req) =
           [create_params (take 6000 (trim r)) (take 3000 (trim j))]
         \<and> map (map length \<circ> contents_of ''user'') (snd (post_analyze rt groq req)) =
           [[121 + min (length (trim r)) 6000 + min (length (trim j)) 3000]]"
proof -
  have calls: "snd (post_analyze rt groq req) =
      [create_params (take 6000 (trim r)) (take 3000 (trim j))]"
    by (simp add: snd_post_analyze analyze_valid_calls [OF assms])
  have "length (js ''Analyze this resume against the job description.'') = 48"
    and "length (js ''=== RESUME ==='') = 14"
    and "length (js ''=== JOB DESCRIPTION ==='') = 23"
    and "length (js ''Return ONLY the JSON object.'') = 28"
    by (simp_all add: js_def)
  then show ?thesis
    unfolding calls by (simp add: user_content_create_params)
qed

theorem truncation_exact_witness:
  "snd (post_analyze scenario_runtime (reply_with []) long_request) =
     [create_params (replicate 6000 0x61) (replicate 3000 0x62)]
   \<and> map (map length \<circ> contents_of ''user'')
         (snd (post_analyze scenario_runtime (reply_with []) long_request)) = [[9121]]"
proof -
  note exact = truncation_exact [OF long_request_valid, of scenario_runtime "reply_with []"]
  from exact [THEN conjunct1] have calls: "snd (post_analyze scenario_runtime (reply_with []) long_request) =
      [create_params (replicate 6000 0x61) (replicate 3000 0x62)]"
    by (simp add: trim_replicate is_space_def)
  from exact [THEN conjunct2] have "map (map length \<circ> contents_of ''user'')
      (snd (post_analyze scenario_runtime (reply_with []) long_request)) = [[9121]]"
    by (simp add: trim_replicate is_space_def)
  with calls show ?thesis by (rule conjI)
qed

text \<open>
  Claim C8. For a validated pair of inputs the user message of the call is the opening line,
  the header \<open>=== RESUME ===\<close> with the truncated resume under it, the header
  \<open>=== JOB DESCRIPTION ===\<close> with the truncated job description under it, and at the end
  the instruction to return only the JSON object.
\<close>

theorem user_message_sections:
  assumes "resume req = Some (JStr r)" and "jobDescription req = Some (JStr j)"
    and "50 \<le> length (trim r)" and "30 \<le> length (trim j)"
  shows "map (contents_of ''user'') (snd (post_analyze rt groq req)) =
           [[js ''Analyze this resume against the job description.'' @ [0x0A, 0x0A]
             @ js ''=== RESUME ==='' @ [0x0A] @ take 6000 (trim r) @ [0x0A, 0x0A]
             @ js ''=== JOB DESCRIPTION ==='' @ [0x0A] @ take 3000 (trim j) @ [0x0A, 0x0A]
             @ js ''Return ONLY the JSON object.'']]"
  by (simp add: snd_post_analyze analyze_valid_calls [OF assms] user_content_create_params)

theorem user_message_sections_witness:
  "map (contents_of ''user'')
     (snd (post_analyze scenario_runtime (reply_with []) scenario_request)) =
     [[js ''Analyze this resume against the job description.'' @ [0x0A, 0x0A]
       @ js ''=== RESUME ==='' @ [0x0A] @ take 6000 (trim scenario_resume) @ [0x0A, 0x0A]
       @ js ''=== JOB DESCRIPTION ==='' @ [0x0A] @ take 3000 (trim scenario_jd) @ [0x0A, 0x0A]
       @ js ''Return ONLY the JSON object.'']]"
  by (rule user_message_sections [OF scenario_valid])

text \<open>
  Claim C9. The prompt is a function of the two inputs alone: two runs on the same resume
  and job description make the same calls (the same system instruction and user message),
  whatever the environment of the process and whatever the remote model answers.
\<close>

theorem prompt_deterministic:
  assumes "resume req = resume req'" and "jobDescription req = jobDescription req'"
  shows "snd (post_analyze rt groq req) = snd (post_analyze rt' groq' req')"
proof -
  from assms have "req = req'" by simp
  then show ?thesis
    by (simp add: snd_post_analyze analyze_calls_independent [of rt groq req' rt' groq'])
qed

theorem prompt_deterministic_witness:
  "snd (post_analyze scenario_runtime (reply_with []) scenario_request) =
   snd (post_analyze \<lparr>NODE_ENV = Some (js ''development''), stack_frames = js ''at analyze.js''\<rparr>
          (\<lambda>call. Rejected \<lparr>message = js ''timeout'', statusCode = None, stack = []\<rparr>)
          scenario_request)"
  using prompt_deterministic [of scenario_request scenario_request]
  by simp

section \<open>The reply of the model\<close>

text \<open>
  Claim C6. For a validated request, when the text the model returned, cleaned, does not
  parse as JSON, the response is status 500 with exactly the body
  \<open>{error: "AI returned unexpected format. Please try again."}\<close>.
\<close>

theorem unparsable_content_rejected:
  assumes "resume req = Some (JStr r)" and "jobDescription req = Some (JStr j)"
    and "50 \<le> length (trim r)" and "30 \<le> length (trim j)"
    and "groq (create_params (take 6000 (trim r)) (take 3000 (trim j))) = Resolved (Some raw # others)"
    and "JSON_parse (cleaned raw) = None"
  shows "fst (post_analyze rt groq req) =
           (500, [(''error'', JStr (js ''AI returned unexpected format. Please try again.''))])"
  using assms(5,6)
  by (simp add: post_analyze_def analyze_valid [OF assms(1-4)] parse_content_def)

theorem unparsable_content_rejected_witness:
  "fst (post_analyze scenario_runtime (reply_with (js ''Sorry, I can not do that.''))
          scenario_request) =
     (500, [(''error'', JStr (js ''AI returned unexpected format. Please try again.''))])"
proof -
  have "JSON_parse (cleaned (js ''Sorry, I can not do that.'')) = None"
    by code_simp
  then show ?thesis
    using unparsable_content_rejected [OF scenario_valid,
        of "reply_with (js ''Sorry, I can not do that.'')"
        "js ''Sorry, I can not do that.''" "[]" scenario_runtime]
    by (simp add: reply_with_def)
qed

text \<open>
  Claim C1 (as the route has it). There is no schema check. For a validated request, when
  the cleaned reply parses as JSON to a value that has the eight required keys, the
  response is status 200 with the body \<open>{success: true, data}\<close> and the parsed value as
  \<open>data\<close>, unchanged, whether or not the score is an integer from 0 to 100, the rating one
  of the five names and the array fields lists of strings.
\<close>

theorem parsed_value_passed_unchecked:
  assumes "resume req = Some (JStr r)" and "jobDescription req = Some (JStr j)"
    and "50 \<le> length (trim r)" and "30 \<le> length (trim j)"
    and "groq (create_params (take 6000 (trim r)) (take 3000 (trim j))) = Resolved (Some raw # others)"
    and "JSON_parse (cleaned raw) = Some v"
    and "has_required_keys v"
  shows "fst (post_analyze rt groq req) = (200, [(''success'', JBool True), (''data'', v)])"
  using assms(5,6)
  by (simp add: post_analyze_def analyze_valid [OF assms(1-4)] parse_content_def)

theorem parsed_value_passed_unchecked_witness:
  "has_required_keys (scenario_value 85)
   \<and> fst (post_analyze scenario_runtime (reply_with (fenced (scenario_json ''85'')))
            scenario_request) =
       (200, [(''success'', JBool True), (''data'', scenario_value 85)])"
  using parsed_value_passed_unchecked [where groq = "reply_with (fenced (scenario_json ''85''))"
      and rt = scenario_runtime, OF scenario_valid scenario_replies scenario_parses(1)
      scenario_keys(1)] scenario_keys(1)
  by simp

text \<open>
  Claim C1 as stated fails: a reply whose score is 150 does not conform, and is returned in
  a success envelope.
\<close>

theorem out_of_range_score_accepted:
  "JSON_parse (cleaned (fenced (scenario_json ''150''))) = Some (scenario_value 150)
   \<and> \<not> conforms (scenario_value 150)
   \<and> fst (post_analyze scenario_runtime (reply_with (fenced (scenario_json ''150'')))
            scenario_request) =
       (200, [(''success'', JBool True), (''data'', scenario_value 150)])"
proof -
  have "\<not> conforms (scenario_value 150)"
    by code_simp
  moreover have "fst (post_analyze scenario_runtime (reply_with (fenced (scenario_json ''150'')))
            scenario_request) =
       (200, [(''success'', JBool True), (''data'', scenario_value 150)])"
    by (simp add: post_analyze_def analyze_valid [OF scenario_valid] reply_with_def
        parse_content_def scenario_parses)
  ultimately show ?thesis
    using scenario_parses(2) by simp
qed

text \<open>
  Claim C3 (as the route has it). The two replacements drop every triple backtick (with
  \<open>json\<close> after it, in any letter case, if there is one) and the white space after it,
  wherever it stands in the text, not only at its ends. For every text, wrapped between an
  opening fence line (\<open>```json\<close> or \<open>```\<close>) and a closing fence line it is cleaned to
  the same text, and so parsed to the same result, as unwrapped. Stripping leaves a text
  unchanged exactly when there is no triple backtick in it.
\<close>

theorem fence_stripping:
  "cleaned (js ''```json'' @ 0x0A # x @ 0x0A # js ''```'') = cleaned x
   \<and> cleaned (js ''```'' @ 0x0A # x @ 0x0A # js ''```'') = cleaned x
   \<and> parse_content (Some (js ''```json'' @ 0x0A # x @ 0x0A # js ''```'')) =
       parse_content (Some x)
   \<and> parse_content (Some (js ''```'' @ 0x0A # x @ 0x0A # js ''```'')) =
       parse_content (Some x)
   \<and> (strip_fences x = x \<longleftrightarrow> \<not> occurs fence x)"
proof -
  have "strip_fences x = x \<longleftrightarrow> \<not> occurs fence x"
    using strip_fences_changes [of x] strip_fences_absent [of x] by auto
  then show ?thesis
    by (simp only: parse_content_def option.case cleaned_fenced simp_thms)
qed

theorem fence_stripping_witness:
  "cleaned (js ''```json'' @ 0x0A # scenario_json ''85'' @ 0x0A # js ''```'') =
     cleaned (scenario_json ''85'')
   \<and> cleaned (js ''```'' @ 0x0A # scenario_json ''85'' @ 0x0A # js ''```'') =
     cleaned (scenario_json ''85'')
   \<and> parse_content (Some (js ''```json'' @ 0x0A # scenario_json ''85'' @ 0x0A # js ''```'')) =
     parse_content (Some (scenario_json ''85''))
   \<and> parse_content (Some (js ''```'' @ 0x0A # scenario_json ''85'' @ 0x0A # js ''```'')) =
     parse_content (Some (scenario_json ''85''))
   \<and> (strip_fences (scenario_json ''85'') = scenario_json ''85''
        \<longleftrightarrow> \<not> occurs fence (scenario_json ''85''))"
  by (rule fence_stripping)

text \<open>
  Claim C3 as stated fails in its second half: a text that neither begins nor ends with a
  fence, but has a triple backtick inside a string, is changed by the stripping.
\<close>

theorem inner_fence_removed:
  \<open>fence fence_inside = None
   \<and> fence (rev fence_inside) = None
   \<and> strip_fences fence_inside = js ''{"summary":"use fences"}''
   \<and> strip_fences fence_inside \<noteq> fence_inside\<close>
  by code_simp

section \<open>The envelope\<close>

text \<open>
  Claim C7. Every response of the endpoint, from the handler or from the global error
  handler, has exactly one of the two shapes: a body with \<open>success: true\<close> and \<open>data\<close> and
  no \<open>error\<close>, or a body with an \<open>error\<close> string and neither \<open>success\<close> nor \<open>data\<close>.
\<close>

theorem one_envelope_variant:
  "(success_body (snd (fst (post_analyze rt groq req)))
      \<or> failure_body (snd (fst (post_analyze rt groq req))))
   \<and> \<not> (success_body (snd (fst (post_analyze rt groq req)))
      \<and> failure_body (snd (fst (post_analyze rt groq req))))"
proof -
  obtain res calls where a: "analyze rt groq req = (res, calls)"
    by (cases "analyze rt groq req")
  consider e where "res = Next e"
    | code msg where "res = Respond code [(''error'', JStr msg)]"
    | v where "res = Respond 200 [(''success'', JBool True), (''data'', v)]"
    using analyze_outcomes [of rt groq req] a by auto
  then show ?thesis
  proof cases
    case 1
    then show ?thesis
      by (simp add: post_analyze_def a error_handler_def success_body_def failure_body_def)
  next
    case 2
    then show ?thesis
      by (simp add: post_analyze_def a success_body_def failure_body_def)
  next
    case 3
    then show ?thesis
      by (simp add: post_analyze_def a success_body_def failure_body_def)
  qed
qed

theorem one_envelope_variant_witness:
  "(success_body (snd (fst (post_analyze scenario_runtime (reply_with []) short_request)))
      \<or> failure_body (snd (fst (post_analyze scenario_runtime (reply_with []) short_request))))
   \<and> \<not> (success_body (snd (fst (post_analyze scenario_runtime (reply_with []) short_request)))
      \<and> failure_body (snd (fst (post_analyze scenario_runtime (reply_with []) short_request))))"
  using one_envelope_variant [of scenario_runtime "reply_with []" short_request]
  by simp

end
